theory Spec2Isabelle
  imports Complex_Main
begin

section \<open>Python values used by main.py\<close>

text \<open>
  A Python \<open>str\<close> is a \<open>string\<close>; its characters are taken in the 8-bit range of
  \<open>char\<close>. A value that may be \<open>None\<close> is an \<open>option\<close>. The value returned by
  \<open>json.loads\<close> is a \<open>json\<close>; a dict is the list of its items, looked up with
  \<open>map_of\<close>. A float is given by its value (the non-finite floats, all of them truthy, are
  left out).
\<close>

datatype json =
    JNull
  | JBool bool
  | JInt int
  | JFloat real
  | JStr string
  | JArr "json list"
  | JObj "(string \<times> json) list"

text \<open>Python's truth value of a parsed JSON value, as \<open>if x:\<close> and \<open>not x\<close> test it.\<close>

fun truthy :: "json \<Rightarrow> bool" where
  "truthy JNull = False"
| "truthy (JBool b) = b"
| "truthy (JInt n) = (n \<noteq> 0)"
| "truthy (JFloat x) = (x \<noteq> 0)"
| "truthy (JStr s) = (s \<noteq> [])"
| "truthy (JArr xs) = (xs \<noteq> [])"
| "truthy (JObj kvs) = (kvs \<noteq> [])"

text \<open>The truth value of an optional string: \<open>None\<close> and \<open>""\<close> are false.\<close>

fun str_truthy :: "string option \<Rightarrow> bool" where
  "str_truthy None = False"
| "str_truthy (Some s) = (s \<noteq> [])"

text \<open>
  What \<open>enumerate(x)\<close> iterates over: the elements of a list, the one-character strings of
  a string, the keys of a dict. On any other value it raises \<open>TypeError\<close> (\<open>None\<close> here).
\<close>

fun py_iter :: "json \<Rightarrow> json list option" where
  "py_iter (JArr xs) = Some xs"
| "py_iter (JStr s) = Some (map (\<lambda>c. JStr [c]) s)"
| "py_iter (JObj kvs) = Some (map (\<lambda>kv. JStr (fst kv)) kvs)"
| "py_iter _ = None"

text \<open>\<open>d.get(k)\<close> on a dict; on a value that is no dict the attribute does not exist.\<close>

fun dict_get :: "json \<Rightarrow> string \<Rightarrow> json option option" where
  "dict_get (JObj kvs) k = Some (map_of kvs k)"
| "dict_get _ k = None"

subsection \<open>\<open>str.find\<close>, \<open>str.rfind\<close> and slicing\<close>

fun py_find :: "char \<Rightarrow> string \<Rightarrow> int" where
  "py_find c [] = - 1"
| "py_find c (x # xs) =
     (if x = c then 0
      else (let r = py_find c xs in if r = - 1 then - 1 else r + 1))"

fun py_rfind :: "char \<Rightarrow> string \<Rightarrow> int" where
  "py_rfind c [] = - 1"
| "py_rfind c (x # xs) =
     (let r = py_rfind c xs
      in if r \<noteq> - 1 then r + 1 else if x = c then 0 else - 1)"

text \<open>\<open>s[a:b]\<close> for indices that are not negative (the only ones main.py slices with).\<close>

definition py_slice :: "string \<Rightarrow> int \<Rightarrow> int \<Rightarrow> string" where
  "py_slice s a b = take (nat (b - a)) (drop (nat a) s)"

subsection \<open>\<open>str.strip\<close> and reading a text file line by line\<close>

definition LF :: char where "LF = CHR 0x0A"
definition CR :: char where "CR = CHR 0x0D"

text \<open>The characters below 256 for which \<open>str.isspace\<close> holds.\<close>

definition py_isspace :: "char \<Rightarrow> bool" where
  "py_isspace c =
     ((of_char c :: nat) \<in> {9, 10, 11, 12, 13, 28, 29, 30, 31, 32, 133, 160})"

definition strip :: "string \<Rightarrow> string" where
  "strip s = rev (dropWhile py_isspace (rev (dropWhile py_isspace s)))"

text \<open>
  \<open>open(path, "r")\<close> reads with universal newlines: \<open>\r\n\<close> and a lone \<open>\r\<close> both reach
  the program as \<open>\n\<close>.
\<close>

fun universal_newlines :: "string \<Rightarrow> string" where
  "universal_newlines [] = []"
| "universal_newlines [x] = (if x = CR then [LF] else [x])"
| "universal_newlines (x # y # zs) =
     (if x = CR \<and> y = LF then LF # universal_newlines zs
      else if x = CR then LF # universal_newlines (y # zs)
      else x # universal_newlines (y # zs))"

text \<open>
  Iterating over the file yields its lines, each with its \<open>\n\<close>; a last line without
  one is yielded as it is. \<open>cur\<close> is the line read so far.
\<close>

fun file_lines :: "string \<Rightarrow> string \<Rightarrow> string list" where
  "file_lines cur [] = (if cur = [] then [] else [cur])"
| "file_lines cur (c # cs) =
     (if c = LF then (cur @ [c]) # file_lines [] cs else file_lines (cur @ [c]) cs)"

section \<open>Configuration, feed entries and the outside world\<close>

record config =
  GOOGLE_API_KEY :: "string option"
  TWITTER_API_KEY :: "string option"
  TWITTER_API_SECRET :: "string option"
  TWITTER_ACCESS_TOKEN :: "string option"
  TWITTER_ACCESS_TOKEN_SECRET :: "string option"

text \<open>An entry of the parsed feed: \<open>id\<close> and \<open>summary\<close> may be absent.\<close>

record feed_entry =
  entry_id :: "string option"
  entry_link :: string
  entry_title :: string
  entry_summary :: "string option"

text \<open>The arguments of one call of \<open>summarize_with_gemini\<close>, which make up its prompt.\<close>

record request =
  original_summary :: string
  req_title :: string
  req_link :: string
  req_date :: string

text \<open>
  One call of \<open>generate_content\<close> raises, or returns a response whose \<open>text\<close> may be
  \<open>None\<close>. One call of \<open>create_tweet\<close> raises and posts nothing, or posts and returns
  the identifier of the new post.
\<close>

datatype gen_outcome = Gen_raises | Gen_text "string option"

datatype tweet_outcome = Tweet_raises | Tweet_id string

text \<open>
  What the run does not decide: the entries of the feed, the date, what the \<open>n\<close>-th call
  of the text backend and the \<open>n\<close>-th call of the platform answer (calls counted from
  \<open>0\<close> over the run), and \<open>json.loads\<close> (\<open>None\<close> when it raises).
\<close>

record env =
  entries :: "feed_entry list"
  today_date :: string
  generate_content :: "nat \<Rightarrow> gen_outcome"
  json_loads :: "string \<Rightarrow> json option"
  create_tweet :: "nat \<Rightarrow> tweet_outcome"

text \<open>
  The state a run changes: the contents of \<open>processed_posts.txt\<close> (\<open>None\<close> while the
  file does not exist), and the calls made so far: the requests sent to the backend, the
  seconds slept, every \<open>create_tweet\<close> call with its text and \<open>in_reply_to_tweet_id\<close>,
  the posts that were created (identifier, text, parent) and the arguments of
  \<open>save_processed_post\<close>.
\<close>

record world =
  processed_file :: "string option"
  prompts :: "request list"
  sleeps :: "nat list"
  tweet_calls :: "(json \<times> string option) list"
  tweets_posted :: "(string \<times> json \<times> string option) list"
  saves :: "string list"

section \<open>The functions of main.py\<close>

subsection \<open>\<open>summarize_with_gemini\<close>\<close>

text \<open>Lines 70 to 78: the text between the first \<open>{\<close> and the last \<open>}\<close>.\<close>

definition json_string :: "string \<Rightarrow> string option" where
  "json_string text =
     (let json_start = py_find (CHR ''{'') text;
          json_end = py_rfind (CHR ''}'') text
      in if json_start = - 1 \<or> json_end = - 1 then None
         else Some (py_slice text json_start (json_end + 1)))"

text \<open>Lines 88 to 90, which only the two \<open>except\<close> branches reach.\<close>

definition retry_delay :: "nat \<Rightarrow> world \<Rightarrow> world" where
  "retry_delay i w = (if i < 2 then w\<lparr>sleeps := sleeps w @ [2]\<rparr> else w)"

text \<open>
  The body of the \<open>try\<close> block, lines 56 to 79, for the \<open>n\<close>-th call of the backend. It
  leaves in one of three ways: it returns the parsed value, it reaches a \<open>continue\<close> (an
  empty response, or no brace found), or an exception is caught (raised by the call or by
  \<open>json.loads\<close>).
\<close>

datatype attempt = Parsed json | Continues | Excepts

definition attempt_outcome :: "env \<Rightarrow> nat \<Rightarrow> attempt" where
  "attempt_outcome e n =
     (case generate_content e n of
        Gen_raises \<Rightarrow> Excepts
      | Gen_text None \<Rightarrow> Continues
      | Gen_text (Some text) \<Rightarrow>
          (if text = [] then Continues
           else case json_string text of
                  None \<Rightarrow> Continues
                | Some js \<Rightarrow>
                    (case json_loads e js of Some v \<Rightarrow> Parsed v | None \<Rightarrow> Excepts)))"

text \<open>
  The loop of lines 54 to 92 over the attempt numbers that are left. A \<open>continue\<close> goes
  to the next attempt at once, a caught exception goes through the delay, a parsed value
  is returned.
\<close>

fun summarize_attempts :: "env \<Rightarrow> request \<Rightarrow> nat list \<Rightarrow> world \<Rightarrow> json option \<times> world" where
  "summarize_attempts e req [] w = (None, w)"
| "summarize_attempts e req (i # rest) w =
     (let w1 = w\<lparr>prompts := prompts w @ [req]\<rparr>
      in case attempt_outcome e (length (prompts w)) of
           Parsed v \<Rightarrow> (Some v, w1)
         | Continues \<Rightarrow> summarize_attempts e req rest w1
         | Excepts \<Rightarrow> summarize_attempts e req rest (retry_delay i w1))"

definition summarize_with_gemini :: "env \<Rightarrow> request \<Rightarrow> world \<Rightarrow> json option \<times> world" where
  "summarize_with_gemini e req w = summarize_attempts e req [0, 1, 2] w"

subsection \<open>\<open>post_to_twitter\<close>\<close>

text \<open>
  The loop of lines 109 to 117. \<open>last_tweet_id\<close> is tested for truth, so an identifier
  that is \<open>None\<close> or empty posts without a parent. An exception leaves the loop with
  \<open>False\<close>.
\<close>

fun post_tweets :: "env \<Rightarrow> json list \<Rightarrow> string option \<Rightarrow> world \<Rightarrow> bool \<times> world" where
  "post_tweets e [] last_tweet_id w = (True, w)"
| "post_tweets e (tweet_text # rest) last_tweet_id w =
     (let parent = (if str_truthy last_tweet_id then last_tweet_id else None);
          w1 = w\<lparr>tweet_calls := tweet_calls w @ [(tweet_text, parent)]\<rparr>
      in case create_tweet e (length (tweet_calls w)) of
           Tweet_raises \<Rightarrow> (False, w1)
         | Tweet_id i \<Rightarrow>
             post_tweets e rest (Some i)
               (w1\<lparr>tweets_posted := tweets_posted w1 @ [(i, tweet_text, parent)]\<rparr>))"

text \<open>\<open>all([...])\<close> over the four platform credentials.\<close>

definition twitter_keys_set :: "config \<Rightarrow> bool" where
  "twitter_keys_set c =
     (str_truthy (TWITTER_API_KEY c) \<and> str_truthy (TWITTER_API_SECRET c) \<and>
      str_truthy (TWITTER_ACCESS_TOKEN c) \<and> str_truthy (TWITTER_ACCESS_TOKEN_SECRET c))"

text \<open>The result is \<open>None\<close> (a bare \<open>return\<close>), \<open>True\<close> or \<open>False\<close>.\<close>

definition post_to_twitter :: "config \<Rightarrow> env \<Rightarrow> json \<Rightarrow> world \<Rightarrow> bool option \<times> world" where
  "post_to_twitter c e tweet_thread w =
     (if \<not> twitter_keys_set c then (None, w)
      else case py_iter tweet_thread of
             None \<Rightarrow> (Some False, w)
           | Some tweets \<Rightarrow>
               (case post_tweets e tweets None w of (ok, w') \<Rightarrow> (Some ok, w')))"

subsection \<open>The processed-posts file\<close>

definition load_processed_posts :: "world \<Rightarrow> string set" where
  "load_processed_posts w =
     (case processed_file w of
        None \<Rightarrow> {}
      | Some content \<Rightarrow> set (map strip (file_lines [] (universal_newlines content))))"

definition save_processed_post :: "string \<Rightarrow> world \<Rightarrow> world" where
  "save_processed_post url w =
     w\<lparr>processed_file :=
          Some ((case processed_file w of None \<Rightarrow> [] | Some content \<Rightarrow> content) @ url @ [LF]),
       saves := saves w @ [url]\<rparr>"

subsection \<open>\<open>main\<close>\<close>

text \<open>How a run ends: it returns, or \<open>social_posts.get\<close> raises on a value that is no dict.\<close>

datatype run_end = Returned | AttributeError

definition post_id_of :: "feed_entry \<Rightarrow> string" where
  "post_id_of post = (case entry_id post of Some i \<Rightarrow> i | None \<Rightarrow> entry_link post)"

text \<open>
  The arguments of the call on line 158, which is reached only for an entry with a
  summary.
\<close>

definition request_for :: "env \<Rightarrow> feed_entry \<Rightarrow> request" where
  "request_for e post =
     \<lparr>original_summary = (case entry_summary post of Some s \<Rightarrow> s | None \<Rightarrow> []),
      req_title = entry_title post, req_link = entry_link post, req_date = today_date e\<rparr>"

text \<open>The loop of lines 148 to 177 over the entries that are left.\<close>

fun main_loop :: "config \<Rightarrow> env \<Rightarrow> string set \<Rightarrow> feed_entry list \<Rightarrow> world \<Rightarrow> run_end \<times> world" where
  "main_loop c e processed_posts [] w = (Returned, w)"
| "main_loop c e processed_posts (post # rest) w =
     (let post_id = post_id_of post
      in if post_id \<in> processed_posts then main_loop c e processed_posts rest w
         else if \<not> str_truthy (entry_summary post) then main_loop c e processed_posts rest w
         else
           (case summarize_with_gemini e (request_for e post) w of
              (social_posts, w1) \<Rightarrow>
                (case social_posts of
                   None \<Rightarrow> main_loop c e processed_posts rest w1
                 | Some sp \<Rightarrow>
                     if \<not> truthy sp then main_loop c e processed_posts rest w1
                     else
                       (case dict_get sp ''twitter_thread'' of
                          None \<Rightarrow> (AttributeError, w1)
                        | Some twitter_thread \<Rightarrow>
                            (case twitter_thread of
                               None \<Rightarrow> (Returned, save_processed_post post_id w1)
                             | Some th \<Rightarrow>
                                 if truthy th then
                                   (case post_to_twitter c e th w1 of
                                      (twitter_post_successful, w2) \<Rightarrow>
                                        if twitter_post_successful = Some True
                                        then (Returned, save_processed_post post_id w2)
                                        else (Returned, w2))
                                 else (Returned, save_processed_post post_id w1))))))"

definition main :: "config \<Rightarrow> env \<Rightarrow> world \<Rightarrow> run_end \<times> world" where
  "main c e w =
     (if \<not> str_truthy (GOOGLE_API_KEY c) then (Returned, w)
      else main_loop c e (load_processed_posts w) (entries e) w)"

section \<open>Scripted collaborators for concrete runs\<close>

text \<open>
  A backend or platform that answers its first calls from a list and every later call
  with a default; a \<open>json.loads\<close> given by the finitely many texts it parses.
\<close>

definition scripted :: "'a \<Rightarrow> 'a list \<Rightarrow> nat \<Rightarrow> 'a" where
  "scripted d xs n = (if n < length xs then xs ! n else d)"

definition loads_table :: "(string \<times> json) list \<Rightarrow> string \<Rightarrow> json option" where
  "loads_table tab js = map_of tab js"

definition fresh_world :: world where
  "fresh_world =
     \<lparr>processed_file = None, prompts = [], sleeps = [], tweet_calls = [],
      tweets_posted = [], saves = []\<rparr>"

text \<open>A world whose file lists \<open>l2\<close> and, with blanks around it, \<open>p1\<close>.\<close>

definition seen_world :: world where
  "seen_world =
     \<lparr>processed_file = Some (''l2'' @ [LF] @ '' p1 '' @ [CR, LF]), prompts = [], sleeps = [],
      tweet_calls = [], tweets_posted = [], saves = []\<rparr>"

definition all_keys :: config where
  "all_keys =
     \<lparr>GOOGLE_API_KEY = Some ''g'', TWITTER_API_KEY = Some ''k'',
      TWITTER_API_SECRET = Some ''s'', TWITTER_ACCESS_TOKEN = Some ''t'',
      TWITTER_ACCESS_TOKEN_SECRET = Some ''u''\<rparr>"

definition paper_bare :: feed_entry where
  "paper_bare =
     \<lparr>entry_id = Some ''p1'', entry_link = ''l1'', entry_title = ''t1'',
      entry_summary = None\<rparr>"

definition paper_full :: feed_entry where
  "paper_full =
     \<lparr>entry_id = None, entry_link = ''l2'', entry_title = ''t2'',
      entry_summary = Some ''abstract''\<rparr>"

definition paper_next :: feed_entry where
  "paper_next =
     \<lparr>entry_id = Some ''p3'', entry_link = ''l3'', entry_title = ''t3'',
      entry_summary = Some ''more''\<rparr>"

definition thread_text :: string where
  \<open>thread_text = ''{"twitter_thread": ["a", "b", "c"]}''\<close>

definition thread_value :: json where
  "thread_value = JObj [(''twitter_thread'', JArr [JStr ''a'', JStr ''b'', JStr ''c''])]"

definition fieldless_text :: string where
  \<open>fieldless_text = ''{"title": "x"}''\<close>

definition fieldless_value :: json where
  "fieldless_value = JObj [(''title'', JStr ''x'')]"

text \<open>The thread inside prose and a markdown fence.\<close>

definition fenced_text :: string where
  "fenced_text = ''Here you go:'' @ [LF] @ ''```json'' @ [LF] @ thread_text @ [LF] @ ''```''"

text \<open>
  A feed of an entry without summary and two entries with one, a backend that answers
  the thread above inside some prose, and a platform that posts three times.
\<close>

definition relay_env :: env where
  "relay_env =
     \<lparr>entries = [paper_bare, paper_full, paper_next],
      today_date = ''2024-01-01'',
      generate_content = scripted Gen_raises [Gen_text (Some (''Here: '' @ thread_text @ '' ok''))],
      json_loads =
        loads_table
          [(thread_text, thread_value), (fieldless_text, fieldless_value), (''{}'', JObj [])],
      create_tweet = scripted Tweet_raises [Tweet_id ''100'', Tweet_id ''101'', Tweet_id ''102'']\<rparr>"

definition paper_request :: request where
  "paper_request = request_for relay_env paper_full"

lemmas run_defs =
  main_def load_processed_posts_def save_processed_post_def post_id_of_def request_for_def
  summarize_with_gemini_def attempt_outcome_def json_string_def py_slice_def retry_delay_def
  post_to_twitter_def twitter_keys_set_def scripted_def loads_table_def fresh_world_def
  all_keys_def paper_bare_def paper_full_def paper_next_def thread_text_def thread_value_def
  relay_env_def paper_request_def fieldless_text_def fieldless_value_def fenced_text_def
  LF_def CR_def Let_def

section \<open>What the synthesizer and the publisher leave untouched\<close>

lemma summarize_attempts_frame:
  "summarize_attempts e req is w = (r, w') \<Longrightarrow>
     processed_file w' = processed_file w \<and> saves w' = saves w \<and>
     tweet_calls w' = tweet_calls w \<and> tweets_posted w' = tweets_posted w"
proof (induction "is" arbitrary: w)
  case Nil
  then show ?case by simp
next
  case (Cons i rest)
  then show ?case
    by (auto simp: Let_def retry_delay_def split: attempt.splits if_splits)
qed

lemma summarize_with_gemini_frame:
  "summarize_with_gemini e req w = (r, w') \<Longrightarrow>
     processed_file w' = processed_file w \<and> saves w' = saves w \<and>
     tweet_calls w' = tweet_calls w \<and> tweets_posted w' = tweets_posted w"
  unfolding summarize_with_gemini_def by (rule summarize_attempts_frame)

lemma post_tweets_frame:
  "post_tweets e ts lid w = (r, w') \<Longrightarrow>
     processed_file w' = processed_file w \<and> saves w' = saves w \<and>
     prompts w' = prompts w \<and> sleeps w' = sleeps w"
proof (induction ts arbitrary: lid w)
  case Nil
  then show ?case by simp
next
  case (Cons t rest)
  then show ?case
    by (auto simp: Let_def split: tweet_outcome.splits)
qed

lemma post_to_twitter_frame:
  "post_to_twitter c e th w = (r, w') \<Longrightarrow>
     processed_file w' = processed_file w \<and> saves w' = saves w \<and>
     prompts w' = prompts w \<and> sleeps w' = sleeps w"
  by (auto simp: post_to_twitter_def split: if_splits option.splits prod.splits
      dest: post_tweets_frame)

section \<open>The steps of the main loop\<close>

lemma main_loop_processed:
  "post_id_of post \<in> ps \<Longrightarrow> main_loop c e ps (post # rest) w = main_loop c e ps rest w"
  by (simp add: Let_def)

lemma main_loop_no_summary:
  "\<not> str_truthy (entry_summary post) \<Longrightarrow>
     main_loop c e ps (post # rest) w = main_loop c e ps rest w"
  by (simp add: Let_def)

lemma main_loop_candidate:
  "post_id_of post \<notin> ps \<Longrightarrow> str_truthy (entry_summary post) \<Longrightarrow>
   summarize_with_gemini e (request_for e post) w = (social_posts, w1) \<Longrightarrow>
     main_loop c e ps (post # rest) w =
       (case social_posts of
          None \<Rightarrow> main_loop c e ps rest w1
        | Some sp \<Rightarrow>
            if \<not> truthy sp then main_loop c e ps rest w1
            else
              (case dict_get sp ''twitter_thread'' of
                 None \<Rightarrow> (AttributeError, w1)
               | Some None \<Rightarrow> (Returned, save_processed_post (post_id_of post) w1)
               | Some (Some th) \<Rightarrow>
                   if truthy th then
                     (case post_to_twitter c e th w1 of
                        (ok, w2) \<Rightarrow>
                          if ok = Some True
                          then (Returned, save_processed_post (post_id_of post) w2)
                          else (Returned, w2))
                   else (Returned, save_processed_post (post_id_of post) w1)))"
  by (simp add: Let_def)

lemma main_loop_all_processed:
  "\<forall>post\<in>set posts. post_id_of post \<in> ps \<Longrightarrow> main_loop c e ps posts w = (Returned, w)"
  by (induction posts) (simp_all add: main_loop_processed del: main_loop.simps(2))

lemma main_loop_skip_prefix:
  "\<forall>p\<in>set pre. post_id_of p \<in> ps \<Longrightarrow>
     main_loop c e ps (pre @ posts) w = main_loop c e ps posts w"
  by (induction pre) (simp_all add: main_loop_processed del: main_loop.simps(2))

lemma main_loop_no_thread:
  assumes "post_id_of post \<notin> ps" "str_truthy (entry_summary post)"
    and "summarize_with_gemini e (request_for e post) w = (Some sp, w1)" "truthy sp"
    and "dict_get sp ''twitter_thread'' = Some tt"
    and "tt = None \<or> (\<exists>th. tt = Some th \<and> \<not> truthy th)"
  shows "main_loop c e ps (post # rest) w = (Returned, save_processed_post (post_id_of post) w1)"
  using assms(4-6) by (auto simp: main_loop_candidate [OF assms(1-3)] simp del: main_loop.simps)

lemma main_loop_saves:
  "main_loop c e ps posts w = (r, w') \<Longrightarrow>
     \<exists>urls. saves w' = saves w @ urls \<and> length urls \<le> 1"
proof (induction posts arbitrary: w)
  case Nil
  then show ?case by simp
next
  case (Cons post rest)
  show ?case
  proof (cases "post_id_of post \<in> ps \<or> \<not> str_truthy (entry_summary post)")
    case True
    with Cons show ?thesis by (auto simp: Let_def split: if_splits)
  next
    case False
    obtain sp w1 where s: "summarize_with_gemini e (request_for e post) w = (sp, w1)"
      by (cases "summarize_with_gemini e (request_for e post) w") auto
    then have f1: "saves w1 = saves w"
      using summarize_with_gemini_frame by blast
    show ?thesis using Cons.prems False s f1 Cons.IH[of w1]
      by (auto simp: Let_def save_processed_post_def
          split: option.splits if_splits prod.splits dest: post_to_twitter_frame)
  qed
qed

section \<open>Which entries a run selects\<close>

lemma summarize_attempts_prompts:
  "\<exists>k. prompts (snd (summarize_attempts e req is w)) = prompts w @ replicate k req"
proof (induction "is" arbitrary: w)
  case Nil
  show ?case by simp
next
  case (Cons i rest)
  let ?w1 = "w\<lparr>prompts := prompts w @ [req]\<rparr>"
  from Cons [of ?w1] obtain k1 where
    k1: "prompts (snd (summarize_attempts e req rest ?w1)) = prompts ?w1 @ replicate k1 req"
    by blast
  from Cons [of "retry_delay i ?w1"] obtain k2 where
    k2: "prompts (snd (summarize_attempts e req rest (retry_delay i ?w1))) =
           prompts (retry_delay i ?w1) @ replicate k2 req"
    by blast
  have p: "prompts (retry_delay i ?w1) = prompts w @ [req]" by (simp add: retry_delay_def)
  show ?case
  proof (cases "attempt_outcome e (length (prompts w))")
    case (Parsed v)
    then have "prompts (snd (summarize_attempts e req (i # rest) w)) = prompts w @ replicate 1 req"
      by (simp add: Let_def)
    then show ?thesis by blast
  next
    case Continues
    then have "prompts (snd (summarize_attempts e req (i # rest) w)) =
                 prompts w @ replicate (Suc k1) req"
      using k1 by (simp add: Let_def)
    then show ?thesis by blast
  next
    case Excepts
    then have "prompts (snd (summarize_attempts e req (i # rest) w)) =
                 prompts w @ replicate (Suc k2) req"
      using k2 p by (simp add: Let_def)
    then show ?thesis by blast
  qed
qed

lemma summarize_with_gemini_prompts:
  "summarize_with_gemini e req w = (r, w1) \<Longrightarrow> \<exists>k. prompts w1 = prompts w @ replicate k req"
  using summarize_attempts_prompts [of e req "[0, 1, 2]" w]
  by (simp add: summarize_with_gemini_def)

text \<open>
  What a run of the loop adds: requests built from entries that are not processed, and
  saved identifiers of such entries.
\<close>

lemma main_loop_selects_unprocessed:
  "main_loop c e ps posts w = (r, w') \<Longrightarrow>
     \<exists>reqs urls. prompts w' = prompts w @ reqs \<and> saves w' = saves w @ urls \<and>
       (\<forall>req\<in>set reqs. \<exists>post\<in>set posts. post_id_of post \<notin> ps \<and> req = request_for e post) \<and>
       (\<forall>url\<in>set urls. \<exists>post\<in>set posts. post_id_of post \<notin> ps \<and> url = post_id_of post)"
proof (induction posts arbitrary: w)
  case Nil
  then show ?case by simp
next
  case (Cons post rest)
  show ?case
  proof (cases "post_id_of post \<in> ps \<or> \<not> str_truthy (entry_summary post)")
    case True
    then have "main_loop c e ps rest w = (r, w')"
      using Cons.prems by (auto simp: Let_def split: if_splits)
    from Cons.IH [OF this] show ?thesis by auto
  next
    case False
    then have u: "post_id_of post \<notin> ps" and t: "str_truthy (entry_summary post)" by simp_all
    obtain sp w1 where s: "summarize_with_gemini e (request_for e post) w = (sp, w1)"
      by (cases "summarize_with_gemini e (request_for e post) w") auto
    from summarize_with_gemini_prompts [OF s] obtain k where
      k: "prompts w1 = prompts w @ replicate k (request_for e post)" by blast
    have f: "saves w1 = saves w" using summarize_with_gemini_frame [OF s] by simp
    note step = main_loop_candidate [OF u t s, of c rest]
    have here: "\<forall>req\<in>set (replicate k (request_for e post)).
                 \<exists>p\<in>set (post # rest). post_id_of p \<notin> ps \<and> req = request_for e p"
      using u by auto
    consider (go_on) "main_loop c e ps rest w1 = (r, w')"
      | (stay) "prompts w' = prompts w1" "saves w' = saves w1"
      | (save) "prompts w' = prompts w1" "saves w' = saves w1 @ [post_id_of post]"
      using Cons.prems unfolding step
      by (auto simp: save_processed_post_def split: option.splits if_splits prod.splits
          dest: post_to_twitter_frame)
    then show ?thesis
    proof cases
      case go_on
      from Cons.IH [OF this] obtain reqs urls where
        r: "prompts w' = prompts w1 @ reqs" "saves w' = saves w1 @ urls"
        "\<forall>req\<in>set reqs. \<exists>p\<in>set rest. post_id_of p \<notin> ps \<and> req = request_for e p"
        "\<forall>url\<in>set urls. \<exists>p\<in>set rest. post_id_of p \<notin> ps \<and> url = post_id_of p"
        by blast
      have "prompts w' = prompts w @ (replicate k (request_for e post) @ reqs)"
        using r(1) k by simp
      moreover have "saves w' = saves w @ urls" using r(2) f by simp
      moreover have "\<forall>req\<in>set (replicate k (request_for e post) @ reqs).
                 \<exists>p\<in>set (post # rest). post_id_of p \<notin> ps \<and> req = request_for e p"
        using here r(3) by auto
      moreover have "\<forall>url\<in>set urls. \<exists>p\<in>set (post # rest). post_id_of p \<notin> ps \<and> url = post_id_of p"
        using r(4) by auto
      ultimately show ?thesis by blast
    next
      case stay
      have "prompts w' = prompts w @ replicate k (request_for e post)" using stay k by simp
      moreover have "saves w' = saves w @ []" using stay f by simp
      ultimately show ?thesis using here by (metis empty_iff list.set(1))
    next
      case save
      have "prompts w' = prompts w @ replicate k (request_for e post)" using save k by simp
      moreover have "saves w' = saves w @ [post_id_of post]" using save f by simp
      moreover have "\<forall>url\<in>set [post_id_of post].
          \<exists>p\<in>set (post # rest). post_id_of p \<notin> ps \<and> url = post_id_of p"
        using u by simp
      ultimately show ?thesis using here by blast
    qed
  qed
qed

section \<open>The three attempts of the synthesizer\<close>







text \<open>
  The loop written out: what the call returns for each run of outcomes. An attempt that
  ended in an exception adds a delay when another attempt follows; one that ended in a
  \<open>continue\<close> adds none.
\<close>

lemma summarize_with_gemini_unfold:
  "summarize_with_gemini e req w =
     (let n = length (prompts w);
          w1 = w\<lparr>prompts := prompts w @ [req]\<rparr>;
          w2 = \<lambda>d1. w\<lparr>prompts := prompts w @ [req, req], sleeps := sleeps w @ d1\<rparr>;
          w3 = \<lambda>d2. w\<lparr>prompts := prompts w @ [req, req, req], sleeps := sleeps w @ d2\<rparr>;
          delay = (\<lambda>a. if a = Excepts then [2::nat] else [])
      in case attempt_outcome e n of
           Parsed v \<Rightarrow> (Some v, w1)
         | a0 \<Rightarrow>
            (case attempt_outcome e (n + 1) of
               Parsed v \<Rightarrow> (Some v, w2 (delay a0))
             | a1 \<Rightarrow>
                (case attempt_outcome e (n + 2) of
                   Parsed v \<Rightarrow> (Some v, w3 (delay a0 @ delay a1))
                 | a2 \<Rightarrow> (None, w3 (delay a0 @ delay a1)))))"
  by (simp add: summarize_with_gemini_def Let_def retry_delay_def split: attempt.splits)

lemma three_exceptions_two_delays:
  assumes "attempt_outcome e (length (prompts w)) = Excepts"
    and "attempt_outcome e (length (prompts w) + 1) = Excepts"
    and "attempt_outcome e (length (prompts w) + 2) = Excepts"
  shows "summarize_with_gemini e req w =
           (None, w\<lparr>prompts := prompts w @ [req, req, req], sleeps := sleeps w @ [2, 2]\<rparr>)"
  using assms by (simp add: summarize_with_gemini_unfold Let_def)

lemma at_most_three_attempts:
  "length (prompts (snd (summarize_with_gemini e req w))) \<le> length (prompts w) + 3"
  by (simp add: summarize_with_gemini_unfold Let_def split: attempt.splits)

section \<open>Finding the braces\<close>

lemma py_find_first: "c \<notin> set pre \<Longrightarrow> py_find c (pre @ c # xs) = int (length pre)"
  by (induction pre) (auto simp: Let_def)

lemma py_rfind_absent: "c \<notin> set s \<Longrightarrow> py_rfind c s = - 1"
  by (induction s) (auto simp: Let_def)

lemma py_rfind_last: "c \<notin> set post \<Longrightarrow> py_rfind c (xs @ c # post) = int (length xs)"
  by (induction xs) (auto simp: Let_def py_rfind_absent)

lemma json_string_wrapped:
  assumes "CHR ''{'' \<notin> set pre" "CHR ''}'' \<notin> set post"
  shows "json_string (pre @ CHR ''{'' # mid @ CHR ''}'' # post) =
           Some (CHR ''{'' # mid @ [CHR ''}''])"
proof -
  have f: "py_find (CHR ''{'') (pre @ CHR ''{'' # mid @ CHR ''}'' # post) = int (length pre)"
    using assms(1) by (rule py_find_first)
  have "py_rfind (CHR ''}'') ((pre @ CHR ''{'' # mid) @ CHR ''}'' # post) =
          int (length (pre @ CHR ''{'' # mid))"
    using assms(2) by (rule py_rfind_last)
  then have r: "py_rfind (CHR ''}'') (pre @ CHR ''{'' # mid @ CHR ''}'' # post) =
                  int (length pre + 1 + length mid)"
    by simp
  have n: "nat (int (length pre + 1 + length mid) + 1 - int (length pre)) =
             Suc (Suc (length mid))"
    by simp
  have "take (Suc (Suc (length mid))) (CHR ''{'' # mid @ CHR ''}'' # post) =
          CHR ''{'' # mid @ [CHR ''}'']"
    by simp
  then show ?thesis
    unfolding json_string_def Let_def f r py_slice_def n by simp
qed

lemma braces_decompose:
  assumes "i < j" "j < length text" "text ! i = CHR ''{''" "text ! j = CHR ''}''"
  shows "\<exists>pre mid post. text = pre @ CHR ''{'' # mid @ CHR ''}'' # post \<and>
           CHR ''{'' \<notin> set pre \<and> CHR ''}'' \<notin> set post"
proof -
  have "CHR ''{'' \<in> set text" using assms by (metis less_trans nth_mem)
  then obtain pre rest where t: "text = pre @ CHR ''{'' # rest" and p: "CHR ''{'' \<notin> set pre"
    by (meson split_list_first)
  have li: "length pre \<le> i"
  proof (rule ccontr)
    assume "\<not> length pre \<le> i"
    then have "i < length pre" by simp
    then have "text ! i \<in> set pre" using t by (simp add: nth_append)
    with p assms(3) show False by simp
  qed
  then have "text ! j = rest ! (j - length pre - 1)" and "j - length pre - 1 < length rest"
    using t assms(1,2) by (auto simp: nth_append nth_Cons')
  then have "CHR ''}'' \<in> set rest" using assms(4) by (metis nth_mem)
  then obtain mid post where "rest = mid @ CHR ''}'' # post" and "CHR ''}'' \<notin> set post"
    by (meson split_list_last)
  with t p show ?thesis by blast
qed

section \<open>Lines of the processed-posts file\<close>

lemma CR_neq_LF [simp]: "CR \<noteq> LF" "LF \<noteq> CR"
  by (simp_all add: CR_def LF_def)

lemma universal_newlines_no_CR: "CR \<notin> set s \<Longrightarrow> universal_newlines s = s"
  by (induction s rule: universal_newlines.induct) auto

lemma universal_newlines_LF_Cons: "universal_newlines (LF # r) = LF # universal_newlines r"
  by (cases r) auto

lemma universal_newlines_terminated:
  "s \<noteq> [] \<Longrightarrow> last s = LF \<Longrightarrow>
     universal_newlines (s @ r) = universal_newlines s @ universal_newlines r \<and>
     universal_newlines s \<noteq> [] \<and> last (universal_newlines s) = LF"
proof (induction s rule: universal_newlines.induct)
  case 1
  then show ?case by simp
next
  case (2 x)
  then show ?case by (simp add: universal_newlines_LF_Cons)
next
  case (3 x y zs)
  show ?case
  proof (cases zs)
    case Nil
    with 3 show ?thesis by (auto simp: universal_newlines_LF_Cons)
  next
    case (Cons z zs')
    with 3 show ?thesis by auto
  qed
qed

lemma file_lines_one: "LF \<notin> set s \<Longrightarrow> file_lines cur (s @ [LF]) = [cur @ s @ [LF]]"
  by (induction s arbitrary: cur) auto

lemma file_lines_terminated:
  "s \<noteq> [] \<Longrightarrow> last s = LF \<Longrightarrow> file_lines cur (s @ r) = file_lines cur s @ file_lines [] r"
  by (induction s arbitrary: cur) (auto split: if_splits)

lemma strip_fixed_ends:
  assumes "strip s = s" "s \<noteq> []"
  shows "\<not> py_isspace (hd s) \<and> \<not> py_isspace (last s)"
proof -
  let ?t = "dropWhile py_isspace s"
  have "length (strip s) \<le> length ?t"
    unfolding strip_def using length_dropWhile_le [of py_isspace "rev ?t"] by simp
  moreover have "length ?t \<le> length s" by (rule length_dropWhile_le)
  ultimately have "length ?t = length s" using assms(1) by simp
  then have t: "?t = s"
    by (metis append_eq_conv_conj append_self_conv2 length_0_conv takeWhile_dropWhile_id
        length_append add_cancel_left_left)
  then have h: "\<not> py_isspace (hd s)" using assms(2) by (simp add: dropWhile_eq_self_iff)
  from assms(1) t have "dropWhile py_isspace (rev s) = rev s"
    unfolding strip_def by (metis rev_rev_ident)
  then have "\<not> py_isspace (hd (rev s))" using assms(2) by (simp add: dropWhile_eq_self_iff)
  then have "\<not> py_isspace (last s)" using assms(2) by (simp add: hd_rev)
  with h show ?thesis by simp
qed

lemma py_isspace_LF: "py_isspace LF"
  by (simp add: py_isspace_def LF_def)

lemma strip_line:
  assumes "strip s = s"
  shows "strip (s @ [LF]) = s"
proof (cases "s = []")
  case True
  then show ?thesis by (simp add: strip_def py_isspace_LF)
next
  case False
  with assms have e: "\<not> py_isspace (hd s)" "\<not> py_isspace (last s)"
    using strip_fixed_ends by blast+
  from False e(1) have "dropWhile py_isspace (s @ [LF]) = s @ [LF]"
    by (cases s) auto
  moreover from False e(2) have "dropWhile py_isspace (rev s) = rev s"
    by (simp add: dropWhile_eq_self_iff hd_rev)
  ultimately show ?thesis by (simp add: strip_def py_isspace_LF)
qed

section \<open>The reply chain\<close>

lemma post_tweets_chain:
  "length ids = length ts \<Longrightarrow>
   \<forall>j<length ts. create_tweet e (length (tweet_calls w) + j) = Tweet_id (ids ! j) \<and> ids ! j \<noteq> [] \<Longrightarrow>
     post_tweets e ts lid w =
       (True, w\<lparr>tweet_calls :=
                  tweet_calls w @ zip ts ((if str_truthy lid then lid else None) # map Some ids),
                tweets_posted :=
                  tweets_posted w @
                  zip ids (zip ts ((if str_truthy lid then lid else None) # map Some ids))\<rparr>)"
proof (induction ts arbitrary: ids lid w)
  case Nil
  then show ?case by simp
next
  case (Cons t ts)
  then obtain i ids' where ids: "ids = i # ids'" by (cases ids) auto
  from Cons.prems(2) have hd: "create_tweet e (length (tweet_calls w)) = Tweet_id i" "i \<noteq> []"
    unfolding ids by force+
  let ?p = "if str_truthy lid then lid else None"
  let ?w = "w\<lparr>tweet_calls := tweet_calls w @ [(t, ?p)],
               tweets_posted := tweets_posted w @ [(i, t, ?p)]\<rparr>"
  have len: "length ids' = length ts" using Cons.prems(1) ids by simp
  have rest: "\<forall>j<length ts. create_tweet e (length (tweet_calls ?w) + j) = Tweet_id (ids' ! j) \<and> ids' ! j \<noteq> []"
  proof (intro allI impI)
    fix j assume "j < length ts"
    then have "Suc j < length (t # ts)" by simp
    with Cons.prems(2) have "create_tweet e (length (tweet_calls w) + Suc j) = Tweet_id (ids ! Suc j) \<and> ids ! Suc j \<noteq> []"
      by blast
    then show "create_tweet e (length (tweet_calls ?w) + j) = Tweet_id (ids' ! j) \<and> ids' ! j \<noteq> []"
      by (simp add: ids)
  qed
  have step: "post_tweets e (t # ts) lid w = post_tweets e ts (Some i) ?w"
    by (simp add: hd Let_def)
  show ?case
    unfolding step Cons.IH [OF len rest] using hd(2) by (simp add: ids)
qed

lemma post_tweets_success:
  "post_tweets e ts lid w = (True, w') \<Longrightarrow>
     map (\<lambda>p. fst (snd p)) (tweets_posted w') = map (\<lambda>p. fst (snd p)) (tweets_posted w) @ ts"
proof (induction ts arbitrary: lid w)
  case Nil
  then show ?case by simp
next
  case (Cons t ts)
  then show ?case
    by (cases "create_tweet e (length (tweet_calls w))") (auto simp: Let_def)
qed

lemma post_tweets_fails_at:
  "k < length ts \<Longrightarrow>
   \<forall>j<k. create_tweet e (length (tweet_calls w) + j) \<noteq> Tweet_raises \<Longrightarrow>
   create_tweet e (length (tweet_calls w) + k) = Tweet_raises \<Longrightarrow>
     \<exists>w'. post_tweets e ts lid w = (False, w') \<and>
          map fst (tweet_calls w') = map fst (tweet_calls w) @ take (Suc k) ts \<and>
          map (\<lambda>p. fst (snd p)) (tweets_posted w') =
            map (\<lambda>p. fst (snd p)) (tweets_posted w) @ take k ts"
proof (induction ts arbitrary: k lid w)
  case Nil
  then show ?case by simp
next
  case (Cons t ts)
  show ?case
  proof (cases k)
    case 0
    with Cons.prems show ?thesis by (simp add: Let_def)
  next
    case (Suc k')
    with Cons.prems(2) have "create_tweet e (length (tweet_calls w)) \<noteq> Tweet_raises"
      by force
    then obtain i where i: "create_tweet e (length (tweet_calls w)) = Tweet_id i"
      by (cases "create_tweet e (length (tweet_calls w))") auto
    let ?p = "if str_truthy lid then lid else None"
    let ?w = "w\<lparr>tweet_calls := tweet_calls w @ [(t, ?p)],
                 tweets_posted := tweets_posted w @ [(i, t, ?p)]\<rparr>"
    have a: "k' < length ts" using Cons.prems(1) Suc by simp
    have b: "\<forall>j<k'. create_tweet e (length (tweet_calls ?w) + j) \<noteq> Tweet_raises"
    proof (intro allI impI)
      fix j assume "j < k'"
      then have "Suc j < k" using Suc by simp
      with Cons.prems(2) have "create_tweet e (length (tweet_calls w) + Suc j) \<noteq> Tweet_raises"
        by blast
      then show "create_tweet e (length (tweet_calls ?w) + j) \<noteq> Tweet_raises" by simp
    qed
    have c: "create_tweet e (length (tweet_calls ?w) + k') = Tweet_raises"
      using Cons.prems(3) Suc by simp
    have step: "post_tweets e (t # ts) lid w = post_tweets e ts (Some i) ?w"
      by (simp add: i Let_def)
    from Cons.IH [OF a b c, of "Some i"] show ?thesis
      unfolding step by (auto simp: Suc)
  qed
qed

section \<open>The specified properties\<close>

text \<open>
  C1. An entry that is not processed and has a summary, for which the synthesizer
  returned an object whose \<open>twitter_thread\<close> is a truthy value with segments \<open>ts\<close>; the
  credentials are set. If the platform raises at the call for segment \<open>k\<close>, the calls
  before it having posted, then the run returns at this entry: nothing is saved and the
  file is as before, the calls made are those for the first \<open>k + 1\<close> segments, and the
  posts created are the first \<open>k\<close> segments.
\<close>

theorem publish_failure_not_committed:
  assumes "post_id_of post \<notin> ps" "str_truthy (entry_summary post)"
    and "summarize_with_gemini e (request_for e post) w = (Some sp, w1)" "truthy sp"
    and "dict_get sp ''twitter_thread'' = Some (Some th)" "truthy th"
    and "twitter_keys_set c" "py_iter th = Some ts" "k < length ts"
    and "\<forall>j<k. create_tweet e (length (tweet_calls w) + j) \<noteq> Tweet_raises"
    and "create_tweet e (length (tweet_calls w) + k) = Tweet_raises"
  shows "\<exists>w'. main_loop c e ps (post # rest) w = (Returned, w') \<and>
           saves w' = saves w \<and> processed_file w' = processed_file w \<and>
           prompts w' = prompts w1 \<and>
           map fst (tweet_calls w') = map fst (tweet_calls w) @ take (Suc k) ts \<and>
           map (\<lambda>p. fst (snd p)) (tweets_posted w') =
             map (\<lambda>p. fst (snd p)) (tweets_posted w) @ take k ts"
proof -
  have f1: "processed_file w1 = processed_file w" "saves w1 = saves w"
    "tweet_calls w1 = tweet_calls w" "tweets_posted w1 = tweets_posted w"
    using summarize_with_gemini_frame [OF assms(3)] by simp_all
  from post_tweets_fails_at [of k ts e w1 None] assms(9-11) f1
  obtain w' where p: "post_tweets e ts None w1 = (False, w')"
    and c: "map fst (tweet_calls w') = map fst (tweet_calls w) @ take (Suc k) ts"
    and t: "map (\<lambda>p. fst (snd p)) (tweets_posted w') =
              map (\<lambda>p. fst (snd p)) (tweets_posted w) @ take k ts"
    by auto
  have f2: "processed_file w' = processed_file w1" "saves w' = saves w1" "prompts w' = prompts w1"
    using post_tweets_frame [OF p] by simp_all
  have pt: "post_to_twitter c e th w1 = (Some False, w')"
    using assms(7,8) p by (simp add: post_to_twitter_def)
  have "main_loop c e ps (post # rest) w = (Returned, w')"
    using assms(4,5,6) pt by (simp add: main_loop_candidate [OF assms(1,2,3)] del: main_loop.simps)
  with c t f1 f2 show ?thesis by simp
qed

theorem publish_failure_not_committed_witness:
  "post_id_of paper_full \<notin> {} \<and> str_truthy (entry_summary paper_full) \<and>
   summarize_with_gemini
     (relay_env\<lparr>create_tweet := scripted Tweet_raises [Tweet_id ''100'']\<rparr>)
     (request_for (relay_env\<lparr>create_tweet := scripted Tweet_raises [Tweet_id ''100'']\<rparr>) paper_full)
     fresh_world = (Some thread_value, fresh_world\<lparr>prompts := [paper_request]\<rparr>) \<and>
   dict_get thread_value ''twitter_thread'' = Some (Some (JArr [JStr ''a'', JStr ''b'', JStr ''c''])) \<and>
   create_tweet (relay_env\<lparr>create_tweet := scripted Tweet_raises [Tweet_id ''100'']\<rparr>) 0 \<noteq>
     Tweet_raises \<and>
   create_tweet (relay_env\<lparr>create_tweet := scripted Tweet_raises [Tweet_id ''100'']\<rparr>) 1 =
     Tweet_raises \<and>
   (\<exists>w'. main_loop all_keys (relay_env\<lparr>create_tweet := scripted Tweet_raises [Tweet_id ''100'']\<rparr>)
            {} [paper_full, paper_next] fresh_world = (Returned, w') \<and>
      saves w' = [] \<and> processed_file w' = None \<and> prompts w' = [paper_request] \<and>
      map fst (tweet_calls w') = [JStr ''a'', JStr ''b''] \<and>
      map (\<lambda>p. fst (snd p)) (tweets_posted w') = [JStr ''a''])"
proof -
  let ?e = "relay_env\<lparr>create_tweet := scripted Tweet_raises [Tweet_id ''100'']\<rparr>"
  let ?th = "JArr [JStr ''a'', JStr ''b'', JStr ''c'']"
  have h1: "post_id_of paper_full \<notin> {}" by simp
  have h2: "str_truthy (entry_summary paper_full)" by (simp add: paper_full_def)
  have h3: "summarize_with_gemini ?e (request_for ?e paper_full) fresh_world =
              (Some thread_value, fresh_world\<lparr>prompts := [paper_request]\<rparr>)"
    by (simp add: run_defs)
  have h4: "truthy thread_value" by (simp add: thread_value_def)
  have h5: "dict_get thread_value ''twitter_thread'' = Some (Some ?th)"
    by (simp add: thread_value_def)
  have h6: "truthy ?th" by simp
  have h7: "twitter_keys_set all_keys" by (simp add: twitter_keys_set_def all_keys_def)
  have h8: "py_iter ?th = Some [JStr ''a'', JStr ''b'', JStr ''c'']" by simp
  have h9: "(1::nat) < length [JStr ''a'', JStr ''b'', JStr ''c'']" by simp
  have c0: "create_tweet ?e 0 \<noteq> Tweet_raises" by (simp add: relay_env_def scripted_def)
  then have h10: "\<forall>j<1. create_tweet ?e (length (tweet_calls fresh_world) + j) \<noteq> Tweet_raises"
    by (simp add: fresh_world_def)
  have c1: "create_tweet ?e 1 = Tweet_raises" by (simp add: relay_env_def scripted_def)
  then have h11: "create_tweet ?e (length (tweet_calls fresh_world) + 1) = Tweet_raises"
    by (simp add: fresh_world_def)
  from publish_failure_not_committed [OF h1 h2 h3 h4 h5 h6 h7 h8 h9 h10 h11, of "[paper_next]"]
  have "\<exists>w'. main_loop all_keys ?e {} [paper_full, paper_next] fresh_world = (Returned, w') \<and>
      saves w' = [] \<and> processed_file w' = None \<and> prompts w' = [paper_request] \<and>
      map fst (tweet_calls w') = [JStr ''a'', JStr ''b''] \<and>
      map (\<lambda>p. fst (snd p)) (tweets_posted w') = [JStr ''a'']"
    by (simp add: fresh_world_def)
  with h1 h2 h3 h5 c0 c1 show ?thesis by blast
qed

text \<open>
  C2, as stated, fails: a run goes past a candidate it could not use. With the first
  entry lacking a summary, the run synthesizes, posts and saves the second entry. With
  three empty responses for the first entry, the run goes on to the next one and saves
  that.
\<close>

theorem run_goes_past_skipped_candidate:
  "post_id_of paper_bare \<notin> load_processed_posts fresh_world \<and>
   \<not> str_truthy (entry_summary paper_bare) \<and>
   entries relay_env = [paper_bare, paper_full, paper_next] \<and>
   prompts (snd (main all_keys relay_env fresh_world)) = [paper_request] \<and>
   saves (snd (main all_keys relay_env fresh_world)) = [''l2''] \<and>
   fst (summarize_with_gemini
     (relay_env\<lparr>entries := [paper_full, paper_next],
        generate_content :=
          scripted Gen_raises
            [Gen_text None, Gen_text None, Gen_text None, Gen_text (Some thread_text)]\<rparr>)
     paper_request fresh_world) = None \<and>
   saves (snd (main all_keys
     (relay_env\<lparr>entries := [paper_full, paper_next],
        generate_content :=
          scripted Gen_raises
            [Gen_text None, Gen_text None, Gen_text None, Gen_text (Some thread_text)]\<rparr>)
     fresh_world)) = [''p3'']"
  by (simp add: run_defs)

text \<open>
  C2, as amended. Let \<open>post\<close> be the first entry of the feed whose identifier is not in
  the loaded processed-set. If it has no summary, or the synthesizer returns \<open>None\<close> for
  it, then nothing is saved and no post is attempted for it, and the run does not end
  there: it goes on with the entries after it, as the run of the loop over those
  entries started in the world the synthesizer left.
\<close>

theorem skipped_candidate_run_continues:
  assumes "str_truthy (GOOGLE_API_KEY c)" "entries e = pre @ post # rest"
    and "\<forall>p\<in>set pre. post_id_of p \<in> load_processed_posts w"
    and "post_id_of post \<notin> load_processed_posts w"
    and "(\<not> str_truthy (entry_summary post) \<and> w1 = w) \<or>
         (str_truthy (entry_summary post) \<and>
          summarize_with_gemini e (request_for e post) w = (None, w1))"
  shows "main c e w = main_loop c e (load_processed_posts w) rest w1 \<and>
         saves w1 = saves w \<and> processed_file w1 = processed_file w \<and>
         tweet_calls w1 = tweet_calls w"
proof -
  have m: "main c e w = main_loop c e (load_processed_posts w) (post # rest) w"
    using assms(1,2) main_loop_skip_prefix [OF assms(3)] by (simp add: main_def)
  from assms(5) show ?thesis
  proof
    assume "\<not> str_truthy (entry_summary post) \<and> w1 = w"
    then show ?thesis using m by (simp add: main_loop_no_summary del: main_loop.simps)
  next
    assume a: "str_truthy (entry_summary post) \<and>
          summarize_with_gemini e (request_for e post) w = (None, w1)"
    then have "main_loop c e (load_processed_posts w) (post # rest) w =
                 main_loop c e (load_processed_posts w) rest w1"
      using main_loop_candidate [OF assms(4), of e w None w1 c rest] by simp
    with m a summarize_with_gemini_frame [of e "request_for e post" w None w1]
    show ?thesis by simp
  qed
qed

theorem skipped_candidate_run_continues_witness:
  "str_truthy (GOOGLE_API_KEY all_keys) \<and>
   entries (relay_env\<lparr>entries := [paper_full, paper_bare, paper_next]\<rparr>) =
     [paper_full] @ paper_bare # [paper_next] \<and>
   post_id_of paper_full \<in> load_processed_posts (fresh_world\<lparr>processed_file := Some ''l2''\<rparr>) \<and>
   post_id_of paper_bare \<notin> load_processed_posts (fresh_world\<lparr>processed_file := Some ''l2''\<rparr>) \<and>
   \<not> str_truthy (entry_summary paper_bare) \<and>
   main all_keys (relay_env\<lparr>entries := [paper_full, paper_bare, paper_next]\<rparr>)
     (fresh_world\<lparr>processed_file := Some ''l2''\<rparr>) =
     main_loop all_keys (relay_env\<lparr>entries := [paper_full, paper_bare, paper_next]\<rparr>)
       (load_processed_posts (fresh_world\<lparr>processed_file := Some ''l2''\<rparr>)) [paper_next]
       (fresh_world\<lparr>processed_file := Some ''l2''\<rparr>) \<and>
   saves (snd (main all_keys (relay_env\<lparr>entries := [paper_full, paper_bare, paper_next]\<rparr>)
     (fresh_world\<lparr>processed_file := Some ''l2''\<rparr>))) = [''p3''] \<and>
   summarize_with_gemini
     (relay_env\<lparr>entries := [paper_full, paper_next],
        generate_content :=
          scripted Gen_raises
            [Gen_text None, Gen_text None, Gen_text None, Gen_text (Some thread_text)]\<rparr>)
     paper_request fresh_world =
     (None, fresh_world\<lparr>prompts := [paper_request, paper_request, paper_request]\<rparr>) \<and>
   main all_keys
     (relay_env\<lparr>entries := [paper_full, paper_next],
        generate_content :=
          scripted Gen_raises
            [Gen_text None, Gen_text None, Gen_text None, Gen_text (Some thread_text)]\<rparr>)
     fresh_world =
     main_loop all_keys
       (relay_env\<lparr>entries := [paper_full, paper_next],
          generate_content :=
            scripted Gen_raises
              [Gen_text None, Gen_text None, Gen_text None, Gen_text (Some thread_text)]\<rparr>)
       (load_processed_posts fresh_world) [paper_next]
       (fresh_world\<lparr>prompts := [paper_request, paper_request, paper_request]\<rparr>)"
proof -
  let ?e = "relay_env\<lparr>entries := [paper_full, paper_bare, paper_next]\<rparr>"
  let ?w = "fresh_world\<lparr>processed_file := Some ''l2''\<rparr>"
  have h1: "str_truthy (GOOGLE_API_KEY all_keys)" by (simp add: all_keys_def)
  have h2: "entries ?e = [paper_full] @ paper_bare # [paper_next]" by (simp add: relay_env_def)
  have m: "post_id_of paper_full \<in> load_processed_posts ?w"
    by (simp add: run_defs strip_def py_isspace_def)
  then have h3: "\<forall>p\<in>set [paper_full]. post_id_of p \<in> load_processed_posts ?w" by simp
  have h4: "post_id_of paper_bare \<notin> load_processed_posts ?w"
    by (simp add: run_defs strip_def py_isspace_def)
  have s: "\<not> str_truthy (entry_summary paper_bare)" by (simp add: paper_bare_def)
  then have h5: "(\<not> str_truthy (entry_summary paper_bare) \<and> ?w = ?w) \<or>
         (str_truthy (entry_summary paper_bare) \<and>
          summarize_with_gemini ?e (request_for ?e paper_bare) ?w = (None, ?w))"
    by simp
  from skipped_candidate_run_continues [OF h1 h2 h3 h4 h5]
  have r: "main all_keys ?e ?w = main_loop all_keys ?e (load_processed_posts ?w) [paper_next] ?w"
    by simp
  have "saves (snd (main_loop all_keys ?e (load_processed_posts ?w) [paper_next] ?w)) = [''p3'']"
    by (simp add: run_defs strip_def py_isspace_def)
  with r have v: "saves (snd (main all_keys ?e ?w)) = [''p3'']" by simp
  let ?b = "relay_env\<lparr>entries := [paper_full, paper_next],
        generate_content :=
          scripted Gen_raises
            [Gen_text None, Gen_text None, Gen_text None, Gen_text (Some thread_text)]\<rparr>"
  let ?w1 = "fresh_world\<lparr>prompts := [paper_request, paper_request, paper_request]\<rparr>"
  have b2: "entries ?b = [] @ paper_full # [paper_next]" by (simp add: relay_env_def)
  have b3: "\<forall>p\<in>set []. post_id_of p \<in> load_processed_posts fresh_world" by simp
  have b4: "post_id_of paper_full \<notin> load_processed_posts fresh_world"
    by (simp add: load_processed_posts_def fresh_world_def)
  have q: "request_for ?b paper_full = paper_request"
    by (simp add: paper_request_def request_for_def relay_env_def)
  have sm: "summarize_with_gemini ?b paper_request fresh_world = (None, ?w1)"
    by (simp add: summarize_with_gemini_def attempt_outcome_def retry_delay_def fresh_world_def
        relay_env_def scripted_def Let_def)
  then have sq: "summarize_with_gemini ?b (request_for ?b paper_full) fresh_world = (None, ?w1)"
    by (simp only: q)
  have st: "str_truthy (entry_summary paper_full)" by (simp add: paper_full_def)
  from sq st have b5: "(\<not> str_truthy (entry_summary paper_full) \<and> ?w1 = fresh_world) \<or>
         (str_truthy (entry_summary paper_full) \<and>
          summarize_with_gemini ?b (request_for ?b paper_full) fresh_world = (None, ?w1))"
    by blast
  from skipped_candidate_run_continues [OF h1 b2 b3 b4 b5]
  have rb: "main all_keys ?b fresh_world =
              main_loop all_keys ?b (load_processed_posts fresh_world) [paper_next] ?w1"
    by simp
  from h1 h2 m h4 s r v sm rb show ?thesis by blast
qed





text \<open>
  C4. A run never selects an entry whose identifier is in the loaded processed-set:
  every request it sends to the synthesizer was built from an entry that is not
  processed, and an identifier it saves was not in the set. When every entry of the
  feed is processed, the run returns with the world as it found it: no request went to
  the synthesizer, no post was attempted, nothing was saved and the file is unchanged.
\<close>

theorem processed_never_reselected:
  "(\<exists>reqs urls.
      prompts (snd (main c e w)) = prompts w @ reqs \<and>
      saves (snd (main c e w)) = saves w @ urls \<and>
      (\<forall>req\<in>set reqs. \<exists>post\<in>set (entries e).
         post_id_of post \<notin> load_processed_posts w \<and> req = request_for e post) \<and>
      (\<forall>url\<in>set urls. url \<notin> load_processed_posts w)) \<and>
   ((\<forall>post\<in>set (entries e). post_id_of post \<in> load_processed_posts w) \<longrightarrow>
      main c e w = (Returned, w))"
proof (intro conjI impI)
  show "\<exists>reqs urls.
      prompts (snd (main c e w)) = prompts w @ reqs \<and>
      saves (snd (main c e w)) = saves w @ urls \<and>
      (\<forall>req\<in>set reqs. \<exists>post\<in>set (entries e).
         post_id_of post \<notin> load_processed_posts w \<and> req = request_for e post) \<and>
      (\<forall>url\<in>set urls. url \<notin> load_processed_posts w)"
  proof (cases "str_truthy (GOOGLE_API_KEY c)")
    case False
    then have "main c e w = (Returned, w)" by (simp add: main_def)
    then have "prompts (snd (main c e w)) = prompts w @ []" "saves (snd (main c e w)) = saves w @ []"
      by simp_all
    then show ?thesis by (metis empty_iff list.set(1))
  next
    case True
    obtain r w' where m: "main_loop c e (load_processed_posts w) (entries e) w = (r, w')"
      by (cases "main_loop c e (load_processed_posts w) (entries e) w") auto
    with True have "snd (main c e w) = w'" by (simp add: main_def)
    with main_loop_selects_unprocessed [OF m] show ?thesis by metis
  qed
next
  assume "\<forall>post\<in>set (entries e). post_id_of post \<in> load_processed_posts w"
  then show "main c e w = (Returned, w)"
    by (simp add: main_def main_loop_all_processed)
qed

theorem processed_never_reselected_witness:
  "post_id_of paper_full \<in> load_processed_posts seen_world \<and>
   post_id_of paper_bare \<in> load_processed_posts seen_world \<and>
   main all_keys (relay_env\<lparr>entries := [paper_full, paper_bare]\<rparr>) seen_world =
     (Returned, seen_world) \<and>
   post_id_of paper_next \<notin> load_processed_posts seen_world \<and>
   prompts (snd (main all_keys (relay_env\<lparr>entries := [paper_full, paper_bare, paper_next]\<rparr>)
     seen_world)) =
     [request_for (relay_env\<lparr>entries := [paper_full, paper_bare, paper_next]\<rparr>) paper_next] \<and>
   saves (snd (main all_keys (relay_env\<lparr>entries := [paper_full, paper_bare, paper_next]\<rparr>)
     seen_world)) = [''p3'']"
proof -
  have h: "\<forall>post\<in>set (entries (relay_env\<lparr>entries := [paper_full, paper_bare]\<rparr>)).
      post_id_of post \<in> load_processed_posts seen_world"
    by (simp add: load_processed_posts_def post_id_of_def seen_world_def relay_env_def
        paper_bare_def paper_full_def LF_def CR_def strip_def py_isspace_def)
  from processed_never_reselected [of all_keys "relay_env\<lparr>entries := [paper_full, paper_bare]\<rparr>"
      seen_world] h
  have n: "main all_keys (relay_env\<lparr>entries := [paper_full, paper_bare]\<rparr>) seen_world =
             (Returned, seen_world)"
    by blast
  have m: "post_id_of paper_full \<in> load_processed_posts seen_world"
    "post_id_of paper_bare \<in> load_processed_posts seen_world"
    using h by (simp_all add: relay_env_def)
  have u: "post_id_of paper_next \<notin> load_processed_posts seen_world"
    by (simp add: run_defs seen_world_def strip_def py_isspace_def)
  have r: "prompts (snd (main all_keys (relay_env\<lparr>entries := [paper_full, paper_bare, paper_next]\<rparr>)
     seen_world)) =
     [request_for (relay_env\<lparr>entries := [paper_full, paper_bare, paper_next]\<rparr>) paper_next]"
    "saves (snd (main all_keys (relay_env\<lparr>entries := [paper_full, paper_bare, paper_next]\<rparr>)
     seen_world)) = [''p3'']"
    by (simp_all add: run_defs seen_world_def strip_def py_isspace_def)
  from m n u r show ?thesis by blast
qed

text \<open>
  C5. The backend answers \<open>{}\<close>: the synthesizer returns the parsed object, which has no
  \<open>twitter_thread\<close>, on its first attempt. The orchestrator tests the object for truth,
  takes the empty dict for a failed synthesis and goes on: the run ends with nothing
  saved, where the specification has the entry committed. (An object with some other key, or
  with an empty \<open>twitter_thread\<close>, is committed.)
\<close>

theorem empty_object_not_committed:
  "summarize_with_gemini
     (relay_env\<lparr>entries := [paper_full], generate_content := (\<lambda>n. Gen_text (Some ''{}''))\<rparr>)
     paper_request fresh_world = (Some (JObj []), fresh_world\<lparr>prompts := [paper_request]\<rparr>) \<and>
   dict_get (JObj []) ''twitter_thread'' = Some None \<and>
   main all_keys
     (relay_env\<lparr>entries := [paper_full], generate_content := (\<lambda>n. Gen_text (Some ''{}''))\<rparr>)
     fresh_world = (Returned, fresh_world\<lparr>prompts := [paper_request]\<rparr>) \<and>
   saves (fresh_world\<lparr>prompts := [paper_request]\<rparr>) = []"
  by (simp add: run_defs)

text \<open>
  C6. Three attempts that each get an empty response: the call gives up after three
  requests and has not slept at all, where the specification has it sleep twice. (Three
  attempts that each end in an exception do sleep twice.)
\<close>

theorem empty_responses_no_delay:
  "summarize_with_gemini (relay_env\<lparr>generate_content := (\<lambda>n. Gen_text None)\<rparr>)
     paper_request fresh_world =
     (None, fresh_world\<lparr>prompts := [paper_request, paper_request, paper_request],
                        sleeps := []\<rparr>)"
  by (simp add: summarize_with_gemini_def attempt_outcome_def retry_delay_def fresh_world_def
      relay_env_def Let_def)

text \<open>
  C7. With the four credentials set, a thread of segments \<open>ts\<close>, not empty, and a
  platform that answers the call for each segment with a non-empty identifier, the
  publisher makes one call per segment, in order: the first without a parent, each
  later one with the identifier returned for the segment before it as its parent; every
  segment is posted and the result is \<open>True\<close>. And whatever the platform answers, the
  result is \<open>True\<close> only if a post was created for every segment, in order.
\<close>

theorem post_to_twitter_reply_chain:
  "(twitter_keys_set c \<and> py_iter th = Some ts \<and> ts \<noteq> [] \<and> length ids = length ts \<and>
    (\<forall>j<length ts. create_tweet e (length (tweet_calls w) + j) = Tweet_id (ids ! j) \<and>
       ids ! j \<noteq> []) \<longrightarrow>
      post_to_twitter c e th w =
        (Some True,
         w\<lparr>tweet_calls := tweet_calls w @ zip ts (None # map Some ids),
           tweets_posted := tweets_posted w @ zip ids (zip ts (None # map Some ids))\<rparr>)) \<and>
   (fst (post_to_twitter c e th w) = Some True \<longrightarrow>
      (\<exists>segments. py_iter th = Some segments \<and>
         map (\<lambda>p. fst (snd p)) (tweets_posted (snd (post_to_twitter c e th w))) =
           map (\<lambda>p. fst (snd p)) (tweets_posted w) @ segments))"
proof (intro conjI impI)
  assume a: "twitter_keys_set c \<and> py_iter th = Some ts \<and> ts \<noteq> [] \<and> length ids = length ts \<and>
    (\<forall>j<length ts. create_tweet e (length (tweet_calls w) + j) = Tweet_id (ids ! j) \<and>
       ids ! j \<noteq> [])"
  then have "post_tweets e ts None w =
       (True, w\<lparr>tweet_calls := tweet_calls w @ zip ts (None # map Some ids),
           tweets_posted := tweets_posted w @ zip ids (zip ts (None # map Some ids))\<rparr>)"
    using post_tweets_chain [of ids ts e w None] by simp
  with a show "post_to_twitter c e th w =
        (Some True,
         w\<lparr>tweet_calls := tweet_calls w @ zip ts (None # map Some ids),
           tweets_posted := tweets_posted w @ zip ids (zip ts (None # map Some ids))\<rparr>)"
    by (simp add: post_to_twitter_def)
next
  assume s: "fst (post_to_twitter c e th w) = Some True"
  then obtain segments where i: "py_iter th = Some segments" and k: "twitter_keys_set c"
    by (auto simp: post_to_twitter_def split: if_splits option.splits)
  obtain ok w' where r: "post_tweets e segments None w = (ok, w')"
    by (cases "post_tweets e segments None w") auto
  with s i k have "ok = True" and p: "snd (post_to_twitter c e th w) = w'"
    by (auto simp: post_to_twitter_def)
  with r have "map (\<lambda>p. fst (snd p)) (tweets_posted w') =
                 map (\<lambda>p. fst (snd p)) (tweets_posted w) @ segments"
    using post_tweets_success by blast
  with i p show "\<exists>segments. py_iter th = Some segments \<and>
         map (\<lambda>p. fst (snd p)) (tweets_posted (snd (post_to_twitter c e th w))) =
           map (\<lambda>p. fst (snd p)) (tweets_posted w) @ segments"
    by simp
qed

theorem post_to_twitter_reply_chain_witness:
  "twitter_keys_set all_keys \<and>
   py_iter (JArr [JStr ''a'', JStr ''b'', JStr ''c'']) = Some [JStr ''a'', JStr ''b'', JStr ''c''] \<and>
   create_tweet relay_env 0 = Tweet_id ''100'' \<and> create_tweet relay_env 1 = Tweet_id ''101'' \<and>
   create_tweet relay_env 2 = Tweet_id ''102'' \<and>
   post_to_twitter all_keys relay_env (JArr [JStr ''a'', JStr ''b'', JStr ''c'']) fresh_world =
     (Some True,
      fresh_world
        \<lparr>tweet_calls := [(JStr ''a'', None), (JStr ''b'', Some ''100''), (JStr ''c'', Some ''101'')],
         tweets_posted :=
           [(''100'', JStr ''a'', None), (''101'', JStr ''b'', Some ''100''),
            (''102'', JStr ''c'', Some ''101'')]\<rparr>) \<and>
   (\<exists>segments. py_iter (JArr [JStr ''a'', JStr ''b'', JStr ''c'']) = Some segments \<and>
      map (\<lambda>p. fst (snd p))
        (tweets_posted
          (snd (post_to_twitter all_keys relay_env (JArr [JStr ''a'', JStr ''b'', JStr ''c''])
             fresh_world))) =
        map (\<lambda>p. fst (snd p)) (tweets_posted fresh_world) @ segments)"
proof -
  let ?th = "JArr [JStr ''a'', JStr ''b'', JStr ''c'']"
  let ?ts = "[JStr ''a'', JStr ''b'', JStr ''c'']"
  let ?ids = "[''100'', ''101'', ''102'']"
  have k: "twitter_keys_set all_keys" by (simp add: twitter_keys_set_def all_keys_def)
  have i: "py_iter ?th = Some ?ts" by simp
  have c: "create_tweet relay_env 0 = Tweet_id ''100''" "create_tweet relay_env 1 = Tweet_id ''101''"
    "create_tweet relay_env 2 = Tweet_id ''102''"
    by (simp_all add: relay_env_def scripted_def)
  have all: "\<forall>j<length ?ts. create_tweet relay_env (length (tweet_calls fresh_world) + j) =
               Tweet_id (?ids ! j) \<and> ?ids ! j \<noteq> []"
    using c by (auto simp: fresh_world_def less_Suc_eq numeral_2_eq_2)
  note t = post_to_twitter_reply_chain [of all_keys ?th ?ts ?ids relay_env fresh_world]
  from t k i all have r: "post_to_twitter all_keys relay_env ?th fresh_world =
        (Some True,
         fresh_world\<lparr>tweet_calls := tweet_calls fresh_world @ zip ?ts (None # map Some ?ids),
           tweets_posted := tweets_posted fresh_world @ zip ?ids (zip ?ts (None # map Some ?ids))\<rparr>)"
    by simp
  then have r': "post_to_twitter all_keys relay_env ?th fresh_world =
     (Some True,
      fresh_world
        \<lparr>tweet_calls := [(JStr ''a'', None), (JStr ''b'', Some ''100''), (JStr ''c'', Some ''101'')],
         tweets_posted :=
           [(''100'', JStr ''a'', None), (''101'', JStr ''b'', Some ''100''),
            (''102'', JStr ''c'', Some ''101'')]\<rparr>)"
    by (simp add: fresh_world_def)
  from r have "fst (post_to_twitter all_keys relay_env ?th fresh_world) = Some True" by simp
  with t have e: "\<exists>segments. py_iter ?th = Some segments \<and>
      map (\<lambda>p. fst (snd p)) (tweets_posted (snd (post_to_twitter all_keys relay_env ?th fresh_world))) =
        map (\<lambda>p. fst (snd p)) (tweets_posted fresh_world) @ segments"
    by blast
  from k i c r' e show ?thesis by blast
qed

text \<open>
  C8. A response text with a \<open>{\<close> somewhere before a \<open>}\<close> splits as a prefix without
  \<open>{\<close>, the text from the first \<open>{\<close> through the last \<open>}\<close>, and a suffix without \<open>}\<close>.
  That middle part is what the synthesizer cuts out and hands to \<open>json.loads\<close>, and when
  it parses, the call returns the parsed value on this attempt.
\<close>

theorem json_extraction:
  assumes "i < j" "j < length text" "text ! i = CHR ''{''" "text ! j = CHR ''}''"
    and "generate_content e (length (prompts w)) = Gen_text (Some text)"
  shows "\<exists>pre mid post.
           text = pre @ CHR ''{'' # mid @ CHR ''}'' # post \<and>
           CHR ''{'' \<notin> set pre \<and> CHR ''}'' \<notin> set post \<and>
           json_string text = Some (CHR ''{'' # mid @ [CHR ''}'']) \<and>
           attempt_outcome e (length (prompts w)) =
             (case json_loads e (CHR ''{'' # mid @ [CHR ''}'']) of
                Some v \<Rightarrow> Parsed v | None \<Rightarrow> Excepts) \<and>
           (\<forall>v. json_loads e (CHR ''{'' # mid @ [CHR ''}'']) = Some v \<longrightarrow>
              summarize_with_gemini e req w = (Some v, w\<lparr>prompts := prompts w @ [req]\<rparr>))"
proof -
  obtain pre mid post where d: "text = pre @ CHR ''{'' # mid @ CHR ''}'' # post"
    "CHR ''{'' \<notin> set pre" "CHR ''}'' \<notin> set post"
    using braces_decompose [OF assms(1-4)] by blast
  have js: "json_string text = Some (CHR ''{'' # mid @ [CHR ''}''])"
    unfolding d(1) using d(2,3) by (rule json_string_wrapped)
  have ne: "text \<noteq> []" using d(1) by simp
  have ao: "attempt_outcome e (length (prompts w)) =
             (case json_loads e (CHR ''{'' # mid @ [CHR ''}'']) of
                Some v \<Rightarrow> Parsed v | None \<Rightarrow> Excepts)"
    by (simp add: attempt_outcome_def assms(5) ne js)
  have "\<forall>v. json_loads e (CHR ''{'' # mid @ [CHR ''}'']) = Some v \<longrightarrow>
              summarize_with_gemini e req w = (Some v, w\<lparr>prompts := prompts w @ [req]\<rparr>)"
    by (simp add: summarize_with_gemini_def ao Let_def)
  with d js ao show ?thesis by blast
qed

theorem json_extraction_witness:
  "(21::nat) < 55 \<and> 55 < length fenced_text \<and>
   fenced_text ! 21 = CHR ''{'' \<and> fenced_text ! 55 = CHR ''}'' \<and>
   generate_content
     (relay_env\<lparr>generate_content := scripted Gen_raises [Gen_text (Some fenced_text)]\<rparr>)
     (length (prompts fresh_world)) = Gen_text (Some fenced_text) \<and>
   json_string fenced_text = Some thread_text \<and>
   summarize_with_gemini
     (relay_env\<lparr>generate_content := scripted Gen_raises [Gen_text (Some fenced_text)]\<rparr>)
     paper_request fresh_world =
     (Some thread_value, fresh_world\<lparr>prompts := [paper_request]\<rparr>)"
proof -
  let ?e = "relay_env\<lparr>generate_content := scripted Gen_raises [Gen_text (Some fenced_text)]\<rparr>"
  have h1: "(21::nat) < 55" by simp
  have h2: "55 < length fenced_text" by (simp add: fenced_text_def thread_text_def)
  have h3: "fenced_text ! 21 = CHR ''{''" by (simp add: fenced_text_def thread_text_def)
  have h4: "fenced_text ! 55 = CHR ''}''" by (simp add: fenced_text_def thread_text_def)
  have h5: "generate_content ?e (length (prompts fresh_world)) = Gen_text (Some fenced_text)"
    by (simp add: relay_env_def scripted_def fresh_world_def)
  have js: "json_string fenced_text = Some thread_text"
    by (simp add: json_string_def fenced_text_def thread_text_def py_slice_def LF_def Let_def)
  have ld: "json_loads ?e thread_text = Some thread_value"
    by (simp add: relay_env_def loads_table_def)
  from json_extraction [OF h1 h2 h3 h4 h5, of paper_request]
  obtain mid where m: "json_string fenced_text = Some (CHR ''{'' # mid @ [CHR ''}''])"
    and r: "\<forall>v. json_loads ?e (CHR ''{'' # mid @ [CHR ''}'']) = Some v \<longrightarrow>
              summarize_with_gemini ?e paper_request fresh_world =
                (Some v, fresh_world\<lparr>prompts := prompts fresh_world @ [paper_request]\<rparr>)"
    by blast
  from m js have "CHR ''{'' # mid @ [CHR ''}''] = thread_text" by simp
  with r ld have "summarize_with_gemini ?e paper_request fresh_world =
                (Some thread_value, fresh_world\<lparr>prompts := prompts fresh_world @ [paper_request]\<rparr>)"
    by simp
  then have "summarize_with_gemini ?e paper_request fresh_world =
     (Some thread_value, fresh_world\<lparr>prompts := [paper_request]\<rparr>)"
    by (simp add: fresh_world_def)
  with h1 h2 h3 h4 h5 js show ?thesis by blast
qed

text \<open>
  C9, as stated, fails on a file whose last line has no newline, and on an identifier
  with a carriage return inside. Saving \<open>x\<close> after the unterminated line \<open>abc\<close> leaves
  one line \<open>abcx\<close>: neither \<open>x\<close> nor the earlier \<open>abc\<close> is a member afterwards. An
  identifier made of \<open>a\<close>, a carriage return and \<open>b\<close> is read back as the two lines
  \<open>a\<close> and \<open>b\<close>.
\<close>

theorem save_after_unterminated_line:
  "LF \<notin> set ''x'' \<and> strip ''x'' = ''x'' \<and>
   ''abc'' \<in> load_processed_posts (fresh_world\<lparr>processed_file := Some ''abc''\<rparr>) \<and>
   load_processed_posts
     (save_processed_post ''x'' (fresh_world\<lparr>processed_file := Some ''abc''\<rparr>)) = {''abcx''} \<and>
   LF \<notin> set (''a'' @ [CR] @ ''b'') \<and> strip (''a'' @ [CR] @ ''b'') = ''a'' @ [CR] @ ''b'' \<and>
   load_processed_posts (save_processed_post (''a'' @ [CR] @ ''b'') fresh_world) = {''a'', ''b''}"
  by (simp add: load_processed_posts_def save_processed_post_def fresh_world_def
        LF_def CR_def strip_def py_isspace_def)

text \<open>
  C9, as amended. For an identifier without line feed and without carriage return that
  equals its stripped form, and a file that does not exist, is empty or ends with a
  line feed: after \<open>save_processed_post\<close> the loaded set contains the identifier, and
  every member of the set loaded before is still a member.
\<close>

theorem load_after_save:
  assumes "LF \<notin> set url" "CR \<notin> set url" "strip url = url"
    and "processed_file w = None \<or> processed_file w = Some [] \<or>
         (\<exists>content. processed_file w = Some (content @ [LF]))"
  shows "url \<in> load_processed_posts (save_processed_post url w) \<and>
         load_processed_posts w \<subseteq> load_processed_posts (save_processed_post url w)"
proof -
  have u: "universal_newlines (url @ [LF]) = url @ [LF]"
    using assms(2) by (simp add: universal_newlines_no_CR)
  have one: "file_lines [] (url @ [LF]) = [url @ [LF]]"
    using file_lines_one [OF assms(1), of "[]"] by simp
  from assms(4) consider "processed_file w = None" | "processed_file w = Some []"
    | content where "processed_file w = Some (content @ [LF])" by auto
  then have "load_processed_posts (save_processed_post url w) =
               insert url (load_processed_posts w)"
  proof cases
    case 1
    then show ?thesis
      by (simp add: load_processed_posts_def save_processed_post_def u one strip_line assms(3))
  next
    case 2
    then show ?thesis
      by (simp add: load_processed_posts_def save_processed_post_def u one strip_line assms(3))
  next
    case 3
    let ?c = "content @ [LF]"
    have t: "universal_newlines (?c @ url @ [LF]) = universal_newlines ?c @ (url @ [LF])"
      "universal_newlines ?c \<noteq> []" "last (universal_newlines ?c) = LF"
      using universal_newlines_terminated [of ?c "url @ [LF]"] u by simp_all
    have "file_lines [] (universal_newlines ?c @ (url @ [LF])) =
            file_lines [] (universal_newlines ?c) @ [url @ [LF]]"
      using file_lines_terminated [OF t(2,3), of "[]" "url @ [LF]"] one by simp
    with 3 t(1) show ?thesis
      by (simp add: load_processed_posts_def save_processed_post_def strip_line assms(3))
  qed
  then show ?thesis by auto
qed

theorem load_after_save_witness:
  "LF \<notin> set ''l3'' \<and> CR \<notin> set ''l3'' \<and> strip ''l3'' = ''l3'' \<and>
   processed_file seen_world = Some ((''l2'' @ [LF] @ '' p1 '' @ [CR]) @ [LF]) \<and>
   load_processed_posts seen_world = {''l2'', ''p1''} \<and>
   ''l3'' \<in> load_processed_posts (save_processed_post ''l3'' seen_world) \<and>
   load_processed_posts seen_world \<subseteq> load_processed_posts (save_processed_post ''l3'' seen_world)"
proof -
  have h: "LF \<notin> set ''l3''" "CR \<notin> set ''l3''" "strip ''l3'' = ''l3''"
    by (simp_all add: LF_def CR_def strip_def py_isspace_def)
  have f: "processed_file seen_world = Some ((''l2'' @ [LF] @ '' p1 '' @ [CR]) @ [LF])"
    by (simp add: seen_world_def)
  then have g: "processed_file seen_world = None \<or> processed_file seen_world = Some [] \<or>
         (\<exists>content. processed_file seen_world = Some (content @ [LF]))"
    by blast
  have l: "load_processed_posts seen_world = {''l2'', ''p1''}"
    by (simp add: load_processed_posts_def seen_world_def LF_def CR_def strip_def py_isspace_def)
  from load_after_save [OF h g] h f l show ?thesis by blast
qed

text \<open>
  C10. Whatever the feed, the backend and the platform do, a run calls
  \<open>save_processed_post\<close> at most once: the saves after the run are those before it,
  followed by at most one identifier.
\<close>

theorem main_commits_at_most_once:
  "\<exists>urls. saves (snd (main c e w)) = saves w @ urls \<and> length urls \<le> 1"
proof (cases "main c e w")
  case (Pair r w')
  then show ?thesis
    by (auto simp: main_def split: if_splits dest: main_loop_saves)
qed

theorem main_commits_at_most_once_witness:
  "saves (snd (main all_keys relay_env fresh_world)) = [''l2''] \<and>
   (\<exists>urls. saves (snd (main all_keys relay_env fresh_world)) = saves fresh_world @ urls \<and>
      length urls \<le> 1)"
  using main_commits_at_most_once [of all_keys relay_env fresh_world]
  by (simp add: run_defs)

end
